theory Spec2Isabelle
  imports Complex_Main "HOL-Library.Sublist" "HOL-Library.AList"
begin

section \<open>Python values and exceptions\<close>

text \<open>
  The request body handed to \<open>Pipeline.inlet\<close> is a JSON-like Python object. A dict is an
  association list in insertion order (string keys, as JSON gives them); lookup takes the
  first binding of a key. Strings are lists of 8-bit code points (the Latin-1 range), on
  which \<open>str.lower()\<close> works character by character. A Python float is the rational number
  it denotes (finite floats only). The body is a tree: no object occurs twice in it.
\<close>

datatype pyval =
    PNone
  | PBool bool
  | PInt int
  | PFloat rat
  | PStr string
  | PList "pyval list"
  | PDict "(string \<times> pyval) list"

text \<open>
  The exceptions that can leave \<open>inlet\<close>: the built-in ones raised by subscripting,
  membership tests, iteration, concatenation and attribute access, the plain
  \<open>Exception(message)\<close> of the two \<open>raise\<close> statements, and an exception that comes out of
  a scanner's \<open>scan\<close> call (identified by an opaque description).
\<close>

datatype error =
    KeyError string
  | IndexError
  | TypeError
  | AttributeError
  | Exception string
  | ScanError string

definition is_lookup_error :: "error \<Rightarrow> bool" where
  \<comment> \<open>Python's \<open>LookupError\<close>: the common base class of \<open>KeyError\<close> and \<open>IndexError\<close>.\<close>
  "is_lookup_error e = (case e of KeyError _ \<Rightarrow> True | IndexError \<Rightarrow> True | _ \<Rightarrow> False)"

definition and_then :: "error + 'a \<Rightarrow> ('a \<Rightarrow> error + 'b) \<Rightarrow> error + 'b" where
  "and_then m f = (case m of Inl e \<Rightarrow> Inl e | Inr x \<Rightarrow> f x)"

fun map_err :: "('a \<Rightarrow> error + 'b) \<Rightarrow> 'a list \<Rightarrow> error + 'b list" where
  "map_err f [] = Inr []"
| "map_err f (x # xs) = and_then (f x) (\<lambda>y. and_then (map_err f xs) (\<lambda>ys. Inr (y # ys)))"

subsection \<open>Strings\<close>

definition lower_char :: "char \<Rightarrow> char" where
  \<comment> \<open>\<open>str.lower()\<close> on one code point below 256: A-Z and the accented capitals
      U+00C0..U+00DE (without the multiplication sign U+00D7) move up by 32.\<close>
  "lower_char c =
     (let n = (of_char c :: nat)
      in if (65 \<le> n \<and> n \<le> 90) \<or> (192 \<le> n \<and> n \<le> 222 \<and> n \<noteq> 215)
         then char_of (n + 32) else c)"

definition lower :: "string \<Rightarrow> string" where
  "lower s = map lower_char s"

fun str_contains :: "string \<Rightarrow> string \<Rightarrow> bool" where
  \<comment> \<open>\<open>sub in s\<close> on two strings.\<close>
  "str_contains sub [] = (sub = [])"
| "str_contains sub (c # cs) = (prefix sub (c # cs) \<or> str_contains sub cs)"

fun find_from :: "nat \<Rightarrow> string \<Rightarrow> string \<Rightarrow> int" where
  "find_from i [] sub = (if sub = [] then int i else - 1)"
| "find_from i (c # cs) sub = (if prefix sub (c # cs) then int i else find_from (Suc i) cs sub)"

definition str_find :: "string \<Rightarrow> string \<Rightarrow> int" where
  \<comment> \<open>\<open>s.find(sub)\<close>: the lowest index where \<open>sub\<close> starts, or -1.\<close>
  "str_find s sub = find_from 0 s sub"

definition py_slice :: "string \<Rightarrow> int \<Rightarrow> int \<Rightarrow> string" where
  \<comment> \<open>\<open>s[a:b]\<close>: negative bounds count from the end, every bound is clipped to the string.\<close>
  "py_slice s a b =
     (let n = int (length s);
          a' = (if a < 0 then max 0 (a + n) else min a n);
          b' = (if b < 0 then max 0 (b + n) else min b n)
      in take (nat (b' - a')) (drop (nat a') s))"

fun join_strs :: "string \<Rightarrow> string list \<Rightarrow> string" where
  "join_strs sep [] = []"
| "join_strs sep [x] = x"
| "join_strs sep (x # y # ys) = x @ sep @ join_strs sep (y # ys)"

definition as_str :: "pyval \<Rightarrow> error + string" where
  "as_str v = (case v of PStr s \<Rightarrow> Inr s | _ \<Rightarrow> Inl TypeError)"

definition str_join :: "string \<Rightarrow> pyval list \<Rightarrow> error + string" where
  \<comment> \<open>\<open>sep.join(xs)\<close>: a \<open>TypeError\<close> when an item is not a string.\<close>
  "str_join sep xs = and_then (map_err as_str xs) (\<lambda>ss. Inr (join_strs sep ss))"

definition str_add :: "pyval \<Rightarrow> string \<Rightarrow> error + string" where
  \<comment> \<open>\<open>v + s\<close> with a string on the right: only a string on the left can be added.\<close>
  "str_add v s = (case v of PStr a \<Rightarrow> Inr (a @ s) | _ \<Rightarrow> Inl TypeError)"

subsection \<open>Formatting a float with two decimals\<close>

definition digit :: "nat \<Rightarrow> char" where
  "digit d = char_of (48 + d)"

fun show_nat :: "nat \<Rightarrow> string" where
  "show_nat n = (if n < 10 then [digit n] else show_nat (n div 10) @ [digit (n mod 10)])"

declare show_nat.simps [simp del]

definition round_half_even :: "rat \<Rightarrow> int" where
  "round_half_even q =
     (let f = \<lfloor>q\<rfloor>; d = q - of_int f
      in if d < 1 / 2 then f else if 1 / 2 < d then f + 1
         else if even f then f else f + 1)"

definition format_2f :: "rat \<Rightarrow> string" where
  \<comment> \<open>\<open>"{:.2f}".format(x)\<close>: the decimal with two fractional digits nearest to the exact
      value of the float, ties to even, a minus sign for a negative value.\<close>
  "format_2f x =
     (let n = nat (round_half_even (\<bar>x\<bar> * 100))
      in (if x < 0 then ''-'' else []) @ show_nat (n div 100) @ ''.''
           @ [digit (n mod 100 div 10), digit (n mod 10)])"

subsection \<open>Subscripts, membership, iteration, item assignment\<close>

definition getitem :: "pyval \<Rightarrow> string \<Rightarrow> error + pyval" where
  \<comment> \<open>\<open>v[k]\<close> with a string key.\<close>
  "getitem v k =
     (case v of
        PDict kvs \<Rightarrow> (case map_of kvs k of None \<Rightarrow> Inl (KeyError k) | Some x \<Rightarrow> Inr x)
      | _ \<Rightarrow> Inl TypeError)"

definition getitem_last :: "pyval \<Rightarrow> error + pyval" where
  \<comment> \<open>\<open>v[-1]\<close>: the last item of a list or string; on a dict, the integer key -1 is
      looked up, which no string-keyed dict has.\<close>
  "getitem_last v =
     (case v of
        PList xs \<Rightarrow> (if xs = [] then Inl IndexError else Inr (last xs))
      | PStr s \<Rightarrow> (if s = [] then Inl IndexError else Inr (PStr [last s]))
      | PDict kvs \<Rightarrow> Inl (KeyError ''-1'')
      | _ \<Rightarrow> Inl TypeError)"

definition contains :: "string \<Rightarrow> pyval \<Rightarrow> error + bool" where
  \<comment> \<open>\<open>k in v\<close> with a string on the left.\<close>
  "contains k v =
     (case v of
        PDict kvs \<Rightarrow> Inr (k \<in> set (map fst kvs))
      | PList xs \<Rightarrow> Inr (PStr k \<in> set xs)
      | PStr s \<Rightarrow> Inr (str_contains k s)
      | _ \<Rightarrow> Inl TypeError)"

definition iter :: "pyval \<Rightarrow> error + pyval list" where
  \<comment> \<open>The items a \<open>for\<close> clause runs over.\<close>
  "iter v =
     (case v of
        PList xs \<Rightarrow> Inr xs
      | PDict kvs \<Rightarrow> Inr (map (\<lambda>kv. PStr (fst kv)) kvs)
      | PStr s \<Rightarrow> Inr (map (\<lambda>c. PStr [c]) s)
      | _ \<Rightarrow> Inl TypeError)"

definition setitem :: "pyval \<Rightarrow> string \<Rightarrow> pyval \<Rightarrow> error + pyval" where
  \<comment> \<open>\<open>v[k] = x\<close> with a string key, returning the updated object.\<close>
  "setitem v k x =
     (case v of PDict kvs \<Rightarrow> Inr (PDict (AList.update k x kvs)) | _ \<Rightarrow> Inl TypeError)"

section \<open>The pipeline\<close>

definition forbidden_strings :: "string list" where
  "forbidden_strings = [''StartupNation Confidential'']"

text \<open>
  A scanner of the LLM Guard library is a black box: \<open>scan\<close> returns the triple
  \<open>(sanitized_prompt, is_valid, risk_score)\<close> or raises. The pipeline object holds the two
  scanners; both are \<open>None\<close> until \<open>on_startup\<close> has run.
\<close>

record scan_result =
  sanitized_prompt :: pyval
  is_valid :: bool
  risk_score :: rat

type_synonym scanner = "pyval \<Rightarrow> string + scan_result"

record pipeline =
  pi_model :: "scanner option"
  bs_model :: "scanner option"

definition init :: pipeline where
  "init = \<lparr>pi_model = None, bs_model = None\<rparr>"

definition on_startup :: "scanner \<Rightarrow> scanner \<Rightarrow> pipeline \<Rightarrow> pipeline" where
  \<comment> \<open>The two constructor calls of the library are the parameters.\<close>
  "on_startup prompt_injection ban_substrings self =
     self\<lparr>pi_model := Some prompt_injection, bs_model := Some ban_substrings\<rparr>"

definition float_0_8 :: rat where
  \<comment> \<open>The float that the literal \<open>0.8\<close> denotes: the double nearest to 4/5.\<close>
  "float_0_8 = 3602879701896397 / 4503599627370496"

subsection \<open>The steps of \<open>inlet\<close>\<close>

definition last_message_content :: "pyval \<Rightarrow> error + pyval" where
  \<comment> \<open>\<open>body["messages"][-1]["content"]\<close>\<close>
  "last_message_content body =
     and_then (getitem body ''messages'') (\<lambda>messages.
     and_then (getitem_last messages) (\<lambda>message.
     getitem message ''content''))"

definition normalize_files :: "pyval \<Rightarrow> error + pyval" where
  \<comment> \<open>\<open>if body["metadata"]["files"] is None: body["metadata"]["files"] = []\<close>.
      The result is the body after the statement; the metadata dict is changed in place,
      which in a tree is an update of the body's \<open>metadata\<close> entry.\<close>
  "normalize_files body =
     and_then (getitem body ''metadata'') (\<lambda>metadata.
     and_then (getitem metadata ''files'') (\<lambda>files.
     if files = PNone
     then and_then (getitem body ''metadata'') (\<lambda>metadata.
          and_then (setitem metadata ''files'' (PList [])) (\<lambda>metadata'.
          setitem body ''metadata'' metadata'))
     else Inr body))"

definition file_content :: "pyval \<Rightarrow> error + pyval" where
  \<comment> \<open>The conditional expression of the comprehension, for one \<open>file\<close>; \<open>and\<close> evaluates
      its operands from left to right and stops at the first false one.\<close>
  "file_content file =
     and_then (contains ''file'' file) (\<lambda>c1.
     if \<not> c1 then Inr (PStr [])
     else and_then (getitem file ''file'') (\<lambda>f.
          and_then (contains ''data'' f) (\<lambda>c2.
          if \<not> c2 then Inr (PStr [])
          else and_then (getitem file ''file'') (\<lambda>f.
               and_then (getitem f ''data'') (\<lambda>d.
               and_then (contains ''content'' d) (\<lambda>c3.
               if \<not> c3 then Inr (PStr [])
               else and_then (getitem file ''file'') (\<lambda>f.
                    and_then (getitem f ''data'') (\<lambda>d.
                    getitem d ''content''))))))))"

definition files_contents_of :: "pyval \<Rightarrow> error + pyval list" where
  \<comment> \<open>The list comprehension over \<open>body["metadata"]["files"]\<close>.\<close>
  "files_contents_of body =
     and_then (getitem body ''metadata'') (\<lambda>metadata.
     and_then (getitem metadata ''files'') (\<lambda>files.
     and_then (iter files) (\<lambda>items.
     map_err file_content items)))"

definition build_full_content :: "pyval \<Rightarrow> pyval list \<Rightarrow> error + string" where
  \<comment> \<open>\<open>user_message + " " + " ".join(files_contents)\<close>\<close>
  "build_full_content user_message files_contents =
     and_then (str_add user_message '' '') (\<lambda>left.
     and_then (str_join '' '' files_contents) (\<lambda>right.
     Inr (left @ right)))"

record match =
  forbidden_string :: string
  context_snippet :: string

definition match_of :: "string \<Rightarrow> string \<Rightarrow> match" where
  \<comment> \<open>The body of the \<open>if\<close> in the loop over \<open>forbidden_strings\<close>.\<close>
  "match_of forbidden full_content =
     (let index = str_find (lower full_content) (lower forbidden);
          start = max 0 (index - 20);
          end = min (int (length full_content)) (index + int (length forbidden) + 20);
          ctx = py_slice full_content start end
      in \<lparr>forbidden_string = forbidden, context_snippet = ''...'' @ ctx @ ''...''\<rparr>)"

fun find_matches :: "string list \<Rightarrow> string \<Rightarrow> match list" where
  "find_matches [] full_content = []"
| "find_matches (forbidden # rest) full_content =
     (if str_contains (lower forbidden) (lower full_content)
      then match_of forbidden full_content # find_matches rest full_content
      else find_matches rest full_content)"

definition match_line :: "match \<Rightarrow> string" where
  \<comment> \<open>\<open>f"\n- Found '{match['forbidden_string']}' in context:\n  {match['context']}"\<close>\<close>
  "match_line m =
     ''\<newline>- Found '' @ [CHR 0x27] @ forbidden_string m @ [CHR 0x27]
       @ '' in context:\<newline>  '' @ context_snippet m"

fun append_lines :: "string \<Rightarrow> match list \<Rightarrow> string" where
  "append_lines error_message [] = error_message"
| "append_lines error_message (m # ms) = append_lines (error_message @ match_line m) ms"

definition confidential_message :: "string \<Rightarrow> string" where
  "confidential_message full_content =
     append_lines ''Confidential information detected:\<newline>''
       (find_matches forbidden_strings full_content)"

definition injection_message :: "rat \<Rightarrow> string" where
  "injection_message score = ''Prompt injection detected with risk score: '' @ format_2f score"

subsection \<open>\<open>Pipeline.inlet\<close>\<close>

text \<open>
  A call of \<open>inlet\<close> is described by what the caller can observe afterwards: the body object
  as the call left it (it is mutated in place), the scanner calls made, in order, with their
  arguments, and the outcome, a raised exception or the returned body.
\<close>

datatype scan_call = PiScan pyval | BsScan pyval

record run =
  body_after :: pyval
  scans :: "scan_call list"
  outcome :: "error + pyval"

definition raised :: "pyval \<Rightarrow> scan_call list \<Rightarrow> error \<Rightarrow> run" where
  "raised body calls e = \<lparr>body_after = body, scans = calls, outcome = Inl e\<rparr>"

definition returned :: "pyval \<Rightarrow> scan_call list \<Rightarrow> run" where
  "returned body calls = \<lparr>body_after = body, scans = calls, outcome = Inr body\<rparr>"

definition scan_with :: "scanner option \<Rightarrow> pyval \<Rightarrow> error + scan_result" where
  \<comment> \<open>\<open>model.scan(text)\<close>: an \<open>AttributeError\<close> on \<open>None\<close>.\<close>
  "scan_with model text =
     (case model of
        None \<Rightarrow> Inl AttributeError
      | Some scan \<Rightarrow> (case scan text of Inl d \<Rightarrow> Inl (ScanError d) | Inr r \<Rightarrow> Inr r))"

definition scan_calls :: "scanner option \<Rightarrow> scan_call \<Rightarrow> scan_call list" where
  \<comment> \<open>The call is made only when there is a scanner to call.\<close>
  "scan_calls model c = (case model of None \<Rightarrow> [] | Some _ \<Rightarrow> [c])"

definition inlet :: "pipeline \<Rightarrow> pyval \<Rightarrow> run" where
  "inlet self body =
     (case last_message_content body of
        Inl e \<Rightarrow> raised body [] e
      | Inr user_message \<Rightarrow>
     (case normalize_files body of
        Inl e \<Rightarrow> raised body [] e
      | Inr body1 \<Rightarrow>
     (case files_contents_of body1 of
        Inl e \<Rightarrow> raised body1 [] e
      | Inr files_contents \<Rightarrow>
     (let calls1 = scan_calls (pi_model self) (PiScan user_message) in
      case scan_with (pi_model self) user_message of
        Inl e \<Rightarrow> raised body1 calls1 e
      | Inr r1 \<Rightarrow>
          if float_0_8 < risk_score r1
          then raised body1 calls1 (Exception (injection_message (risk_score r1)))
          else
     (case build_full_content user_message files_contents of
        Inl e \<Rightarrow> raised body1 calls1 e
      | Inr full_content \<Rightarrow>
     (let calls2 = calls1 @ scan_calls (bs_model self) (BsScan (PStr full_content)) in
      case scan_with (bs_model self) (PStr full_content) of
        Inl e \<Rightarrow> raised body1 calls2 e
      | Inr r2 \<Rightarrow>
          if \<not> is_valid r2
          then raised body1 calls2 (Exception (confidential_message full_content))
          else returned body1 calls2))))))"

subsection \<open>Auxiliary notions for the statements\<close>

definition files_of :: "pyval \<Rightarrow> error + pyval" where
  \<comment> \<open>The expression \<open>body["metadata"]["files"]\<close>, which the guard and the comprehension
      both evaluate.\<close>
  "files_of body = and_then (getitem body ''metadata'') (\<lambda>metadata. getitem metadata ''files'')"

definition fixed_scanner :: "bool \<Rightarrow> rat \<Rightarrow> scanner" where
  \<comment> \<open>A scanner stub with a fixed verdict, standing for the library in concrete runs.\<close>
  "fixed_scanner valid score text =
     Inr \<lparr>sanitized_prompt = text, is_valid = valid, risk_score = score\<rparr>"

definition request :: "string \<Rightarrow> pyval \<Rightarrow> pyval" where
  \<comment> \<open>A request body of the shape the host sends: one user message and a files entry.\<close>
  "request content files =
     PDict [(''messages'', PList [PDict [(''role'', PStr ''user''), (''content'', PStr content)]]),
            (''metadata'', PDict [(''files'', files)])]"

section \<open>Basic facts\<close>

lemma and_then_Inr [simp]: "and_then (Inr x) f = f x"
  by (simp add: and_then_def)

lemma and_then_Inl [simp]: "and_then (Inl e) f = Inl e"
  by (simp add: and_then_def)

lemma and_then_eq_Inr:
  "and_then m f = Inr y \<longleftrightarrow> (\<exists>x. m = Inr x \<and> f x = Inr y)"
  by (cases m) simp_all

lemma inlet_no_content:
  "last_message_content body = Inl e \<Longrightarrow> inlet self body = raised body [] e"
  by (simp add: inlet_def)

lemma getitem_PDict:
  "getitem (PDict kvs) k = (case map_of kvs k of None \<Rightarrow> Inl (KeyError k) | Some x \<Rightarrow> Inr x)"
  by (simp add: getitem_def)

lemma getitem_Inr_PDict:
  "getitem v k = Inr x \<Longrightarrow> \<exists>kvs. v = PDict kvs \<and> map_of kvs k = Some x"
  by (cases v) (auto simp: getitem_def split: option.splits)

subsection \<open>Strings\<close>

lemma str_contains_sublist: "str_contains sub s = sublist sub s"
  by (induction s) (auto simp: sublist_Cons_right)

lemma str_contains_drop: "str_contains sub s = (\<exists>i\<le>length s. prefix sub (drop i s))"
proof (induction s)
  case Nil
  then show ?case by auto
next
  case (Cons c cs)
  show ?case
  proof
    assume "str_contains sub (c # cs)"
    then consider "prefix sub (c # cs)" | "str_contains sub cs" by auto
    then show "\<exists>i\<le>length (c # cs). prefix sub (drop i (c # cs))"
    proof cases
      case 1
      then have "prefix sub (drop 0 (c # cs))" by simp
      then show ?thesis by blast
    next
      case 2
      then obtain i where "i \<le> length cs" "prefix sub (drop i cs)" using Cons.IH by auto
      then have "Suc i \<le> length (c # cs) \<and> prefix sub (drop (Suc i) (c # cs))" by simp
      then show ?thesis by blast
    qed
  next
    assume "\<exists>i\<le>length (c # cs). prefix sub (drop i (c # cs))"
    then obtain i where i: "i \<le> length (c # cs)" "prefix sub (drop i (c # cs))" by auto
    show "str_contains sub (c # cs)"
    proof (cases i)
      case 0
      then show ?thesis using i by simp
    next
      case (Suc j)
      then have "j \<le> length cs \<and> prefix sub (drop j cs)" using i by simp
      then show ?thesis using Cons.IH by auto
    qed
  qed
qed

lemma find_from_found:
  "str_contains sub s \<Longrightarrow>
   \<exists>i\<le>length s. find_from k s sub = int (k + i) \<and> prefix sub (drop i s)
      \<and> (\<forall>j<i. \<not> prefix sub (drop j s))"
proof (induction s arbitrary: k)
  case Nil
  then show ?case by simp
next
  case (Cons c cs)
  show ?case
  proof (cases "prefix sub (c # cs)")
    case True
    then have "find_from k (c # cs) sub = int (k + 0) \<and> prefix sub (drop 0 (c # cs))
      \<and> (\<forall>j<0::nat. \<not> prefix sub (drop j (c # cs)))" by simp
    then show ?thesis by blast
  next
    case False
    then have "str_contains sub cs" using Cons.prems by simp
    from Cons.IH[OF this, of "Suc k"] obtain i where i: "i \<le> length cs"
      "find_from (Suc k) cs sub = int (Suc k + i)" "prefix sub (drop i cs)"
      "\<forall>j<i. \<not> prefix sub (drop j cs)" by blast
    have "\<forall>j<Suc i. \<not> prefix sub (drop j (c # cs))"
    proof (intro allI impI)
      fix j assume "j < Suc i"
      then show "\<not> prefix sub (drop j (c # cs))"
        using False i(4) by (cases j) auto
    qed
    then have "Suc i \<le> length (c # cs) \<and> find_from k (c # cs) sub = int (k + Suc i)
      \<and> prefix sub (drop (Suc i) (c # cs)) \<and> (\<forall>j<Suc i. \<not> prefix sub (drop j (c # cs)))"
      using False i by simp
    then show ?thesis by blast
  qed
qed

lemma find_from_absent: "\<not> str_contains sub s \<Longrightarrow> find_from k s sub = - 1"
  by (induction s arbitrary: k) auto

lemma length_lower: "length (lower s) = length s"
  by (simp add: lower_def)

lemma lower_drop: "drop i (lower s) = lower (drop i s)"
  by (simp add: lower_def drop_map)

lemma lower_take: "take i (lower s) = lower (take i s)"
  by (simp add: lower_def take_map)

lemma prefix_occurrence:
  "prefix sub (drop i s) \<Longrightarrow> i \<le> length s \<Longrightarrow> i + length sub \<le> length s \<and> take (length sub) (drop i s) = sub"
  by (auto simp: prefix_def dest: arg_cong[where f=length])

lemma py_slice_inside:
  "0 \<le> a \<Longrightarrow> a \<le> b \<Longrightarrow> b \<le> int (length s) \<Longrightarrow> py_slice s a b = take (nat b - nat a) (drop (nat a) s)"
  by (simp add: py_slice_def Let_def nat_diff_distrib)

subsection \<open>The steps of \<open>inlet\<close>\<close>

lemma append_lines_concat: "append_lines acc ms = acc @ concat (map match_line ms)"
  by (induction ms arbitrary: acc) simp_all

lemma find_matches_filter:
  "find_matches fs fc =
     map (\<lambda>f. match_of f fc) (filter (\<lambda>f. str_contains (lower f) (lower fc)) fs)"
  by (induction fs) simp_all

lemma confidential_message_head:
  "\<exists>rest. confidential_message fc = CHR ''C'' # rest"
  by (simp add: confidential_message_def append_lines_concat)

lemma injection_message_head:
  "\<exists>rest. injection_message s = CHR ''P'' # rest"
  by (simp add: injection_message_def)

lemma messages_differ: "confidential_message fc \<noteq> injection_message s"
  using confidential_message_head[of fc] injection_message_head[of s] by auto

lemma scan_with_Some:
  "scan_with (Some scan) t = (case scan t of Inl d \<Rightarrow> Inl (ScanError d) | Inr r \<Rightarrow> Inr r)"
  by (simp add: scan_with_def)

lemma inlet_injection_check:
  assumes "last_message_content body = Inr user_message"
      and "normalize_files body = Inr body1"
      and "files_contents_of body1 = Inr files_contents"
      and "pi_model self = Some pi_scan"
      and "pi_scan user_message = Inr r1"
  shows "inlet self body =
     (if float_0_8 < risk_score r1
      then raised body1 [PiScan user_message] (Exception (injection_message (risk_score r1)))
      else (case build_full_content user_message files_contents of
              Inl e \<Rightarrow> raised body1 [PiScan user_message] e
            | Inr full_content \<Rightarrow>
                (case scan_with (bs_model self) (PStr full_content) of
                   Inl e \<Rightarrow> raised body1
                     ([PiScan user_message] @ scan_calls (bs_model self) (BsScan (PStr full_content))) e
                 | Inr r2 \<Rightarrow>
                     if \<not> is_valid r2
                     then raised body1 [PiScan user_message, BsScan (PStr full_content)]
                            (Exception (confidential_message full_content))
                     else returned body1 [PiScan user_message, BsScan (PStr full_content)])))"
  using assms
  by (auto simp: inlet_def scan_with_def scan_calls_def Let_def
      split: sum.splits option.splits)

lemma inlet_confidentiality_check:
  assumes "last_message_content body = Inr user_message"
      and "normalize_files body = Inr body1"
      and "files_contents_of body1 = Inr files_contents"
      and "pi_model self = Some pi_scan"
      and "pi_scan user_message = Inr r1"
      and "risk_score r1 \<le> float_0_8"
      and "build_full_content user_message files_contents = Inr full_content"
      and "bs_model self = Some bs_scan"
      and "bs_scan (PStr full_content) = Inr r2"
  shows "inlet self body =
     (if \<not> is_valid r2
      then raised body1 [PiScan user_message, BsScan (PStr full_content)]
             (Exception (confidential_message full_content))
      else returned body1 [PiScan user_message, BsScan (PStr full_content)])"
  using assms by (simp add: inlet_injection_check[OF assms(1-5)] scan_with_def)

lemma normalize_files_result:
  assumes "normalize_files body = Inr body1"
  shows "(files_of body \<noteq> Inr PNone \<and> body1 = body)
       \<or> (files_of body = Inr PNone
           \<and> (\<exists>kvs md. body = PDict kvs \<and> map_of kvs ''metadata'' = Some (PDict md)
             \<and> map_of md ''files'' = Some PNone
             \<and> body1 = PDict (AList.update ''metadata''
                   (PDict (AList.update ''files'' (PList []) md)) kvs)))"
proof -
  from assms obtain metadata files where m: "getitem body ''metadata'' = Inr metadata"
    and f: "getitem metadata ''files'' = Inr files"
    by (auto simp: normalize_files_def and_then_eq_Inr)
  from m obtain kvs where kvs: "body = PDict kvs" "map_of kvs ''metadata'' = Some metadata"
    using getitem_Inr_PDict by blast
  from f obtain md where md: "metadata = PDict md" "map_of md ''files'' = Some files"
    using getitem_Inr_PDict by blast
  show ?thesis
  proof (cases "files = PNone")
    case True
    with assms m f kvs md show ?thesis
      by (simp add: normalize_files_def setitem_def files_of_def)
  next
    case False
    with assms m f show ?thesis
      by (simp add: normalize_files_def files_of_def)
  qed
qed

lemma format_2f_shape:
  "\<exists>w d1 d2. format_2f x = w @ ''.'' @ [digit d1, digit d2] \<and> d1 < 10 \<and> d2 < 10"
proof -
  define n where "n = nat (round_half_even (\<bar>x\<bar> * 100))"
  have "format_2f x = ((if x < 0 then ''-'' else []) @ show_nat (n div 100)) @ ''.''
           @ [digit (n mod 100 div 10), digit (n mod 10)]"
    by (simp add: format_2f_def n_def Let_def)
  moreover have "n mod 100 div 10 < 10" "n mod 10 < 10" by auto
  ultimately show ?thesis by blast
qed

lemma as_str_error: "as_str x = Inl e \<Longrightarrow> e = TypeError"
  by (cases x) (simp_all add: as_str_def)

lemma map_err_as_str_error: "map_err as_str xs = Inl e \<Longrightarrow> e = TypeError"
proof (induction xs)
  case Nil
  then show ?case by simp
next
  case (Cons x xs)
  show ?case
  proof (cases "as_str x")
    case (Inl a)
    with Cons.prems show ?thesis by (simp add: as_str_error)
  next
    case x: (Inr s)
    show ?thesis
    proof (cases "map_err as_str xs")
      case (Inl a)
      with Cons.prems x have "a = e" by simp
      with Inl Cons.IH show ?thesis by simp
    next
      case (Inr ss)
      with Cons.prems x show ?thesis by simp
    qed
  qed
qed

lemma build_full_content_error: "build_full_content u fs = Inl e \<Longrightarrow> e = TypeError"
  by (cases u; cases "map_err as_str fs")
     (auto simp: build_full_content_def str_add_def str_join_def dest: map_err_as_str_error)

lemma scan_with_error:
  "scan_with model t = Inl e \<Longrightarrow> e = AttributeError \<or> (\<exists>d. e = ScanError d)"
  by (auto simp: scan_with_def split: option.splits sum.splits)

lemma last_message_content_messages_only:
  "getitem body2 ''messages'' = getitem body ''messages'' \<Longrightarrow>
   last_message_content body2 = last_message_content body"
  by (simp add: last_message_content_def)

lemma not_injection_outcome:
  assumes "last_message_content body = Inr user_message"
      and "normalize_files body = Inr body1"
      and "files_contents_of body1 = Inr files_contents"
      and "pi_model self = Some pi_scan"
      and "pi_scan user_message = Inr r1"
      and "\<not> float_0_8 < risk_score r1"
  shows "outcome (inlet self body) \<noteq> Inl (Exception (injection_message s))"
proof (cases "build_full_content user_message files_contents")
  case (Inl e)
  then have "e = TypeError" by (rule build_full_content_error)
  then show ?thesis
    using assms(6) Inl by (simp add: inlet_injection_check[OF assms(1-5)] raised_def)
next
  case (Inr full_content)
  show ?thesis
  proof (cases "scan_with (bs_model self) (PStr full_content)")
    case (Inl e)
    then have "e = AttributeError \<or> (\<exists>d. e = ScanError d)" by (rule scan_with_error)
    then show ?thesis
      using assms(6) Inr Inl
      by (auto simp: inlet_injection_check[OF assms(1-5)] raised_def)
  next
    case r2: (Inr r2)
    show ?thesis
      using assms(6) Inr r2 messages_differ[of full_content s]
      by (simp add: inlet_injection_check[OF assms(1-5)] raised_def returned_def)
  qed
qed

lemma scans_after_injection_check:
  assumes "last_message_content body = Inr user_message"
      and "normalize_files body = Inr body1"
      and "files_contents_of body1 = Inr files_contents"
      and "pi_model self = Some pi_scan"
      and "pi_scan user_message = Inr r1"
  shows "\<exists>rest. scans (inlet self body) = PiScan user_message # rest
           \<and> (\<forall>c\<in>set rest. \<exists>t. c = BsScan t)"
  by (auto simp: inlet_injection_check[OF assms] raised_def returned_def scan_calls_def
      split: sum.splits option.splits)

lemmas eval_defs =
  request_def last_message_content_def normalize_files_def files_contents_of_def
  files_of_def getitem_def getitem_last_def setitem_def iter_def contains_def file_content_def
  build_full_content_def str_add_def str_join_def as_str_def
  on_startup_def init_def fixed_scanner_def float_0_8_def

section \<open>Pass-through\<close>

text \<open>
  Claim C1, as amended. When the last message has a content, the files entry exists, the
  injection scanner reports a score not above the threshold and the substring scanner reports
  the text valid, \<open>inlet\<close> returns the body. The body returned is the one received when
  \<open>metadata.files\<close> was not \<open>None\<close>; when it was \<open>None\<close>, the body returned differs from
  the one received in that \<open>metadata.files\<close> is the empty list.
\<close>

theorem inlet_pass_through:
  assumes "last_message_content body = Inr user_message"
      and "normalize_files body = Inr body1"
      and "files_contents_of body1 = Inr files_contents"
      and "pi_model self = Some pi_scan"
      and "pi_scan user_message = Inr r1"
      and "risk_score r1 \<le> float_0_8"
      and "build_full_content user_message files_contents = Inr full_content"
      and "bs_model self = Some bs_scan"
      and "bs_scan (PStr full_content) = Inr r2"
      and "is_valid r2"
  shows "outcome (inlet self body) = Inr body1
       \<and> (files_of body \<noteq> Inr PNone \<longrightarrow> body1 = body)
       \<and> (files_of body = Inr PNone \<longrightarrow>
            (\<exists>kvs md. body = PDict kvs \<and> map_of kvs ''metadata'' = Some (PDict md)
               \<and> map_of md ''files'' = Some PNone
               \<and> body1 = PDict (AList.update ''metadata''
                     (PDict (AList.update ''files'' (PList []) md)) kvs)))"
proof -
  have "outcome (inlet self body) = Inr body1"
    using assms(10) by (simp add: inlet_confidentiality_check[OF assms(1-9)] returned_def)
  then show ?thesis
    using normalize_files_result[OF assms(2)] by auto
qed

theorem inlet_pass_through_witness:
  "outcome (inlet (on_startup (fixed_scanner True (1 / 20)) (fixed_scanner True 0) init)
      (request ''What is the weather today?'' PNone))
   = Inr (request ''What is the weather today?'' (PList []))"
proof -
  let ?self = "on_startup (fixed_scanner True (1 / 20)) (fixed_scanner True 0) init"
  let ?body = "request ''What is the weather today?'' PNone"
  let ?body1 = "request ''What is the weather today?'' (PList [])"
  let ?r1 = "\<lparr>sanitized_prompt = PStr ''What is the weather today?'', is_valid = True,
      risk_score = 1 / 20\<rparr>"
  let ?r2 = "\<lparr>sanitized_prompt = PStr ''What is the weather today? '', is_valid = True,
      risk_score = 0\<rparr>"
  have h1: "last_message_content ?body = Inr (PStr ''What is the weather today?'')"
    by (simp add: eval_defs)
  have h2: "normalize_files ?body = Inr ?body1"
    by (simp add: eval_defs)
  have h3: "files_contents_of ?body1 = Inr []"
    by (simp add: eval_defs)
  have h4: "pi_model ?self = Some (fixed_scanner True (1 / 20))"
    by (simp add: eval_defs)
  have h5: "fixed_scanner True (1 / 20) (PStr ''What is the weather today?'') = Inr ?r1"
    by (simp add: eval_defs)
  have h6: "risk_score ?r1 \<le> float_0_8"
    by (simp add: eval_defs)
  have h7: "build_full_content (PStr ''What is the weather today?'') []
      = Inr ''What is the weather today? ''"
    by (simp add: eval_defs)
  have h8: "bs_model ?self = Some (fixed_scanner True 0)"
    by (simp add: eval_defs)
  have h9: "fixed_scanner True 0 (PStr ''What is the weather today? '') = Inr ?r2"
    by (simp add: eval_defs)
  have h10: "is_valid ?r2"
    by simp
  from inlet_pass_through[OF h1 h2 h3 h4 h5 h6 h7 h8 h9 h10]
  show ?thesis by simp
qed

theorem inlet_pass_through_counterexample:
  "1 / 20 \<le> float_0_8
   \<and> outcome (inlet (on_startup (fixed_scanner True (1 / 20)) (fixed_scanner True 0) init)
        (PDict [(''messages'', PList [PDict [(''content'', PStr ''hello'')]]),
                (''metadata'', PDict [(''files'', PNone)])]))
     = Inr (PDict [(''messages'', PList [PDict [(''content'', PStr ''hello'')]]),
                   (''metadata'', PDict [(''files'', PList [])])])
   \<and> outcome (inlet (on_startup (fixed_scanner True (1 / 20)) (fixed_scanner True 0) init)
        (PDict [(''messages'', PList [PDict [(''content'', PStr ''hello'')]]),
                (''metadata'', PDict [(''files'', PNone)])]))
     \<noteq> Inr (PDict [(''messages'', PList [PDict [(''content'', PStr ''hello'')]]),
                   (''metadata'', PDict [(''files'', PNone)])])"
  by (simp add: inlet_def eval_defs scan_with_def scan_calls_def returned_def)

section \<open>Malformed requests\<close>

text \<open>
  Claim C8, as amended. \<open>inlet\<close> has no error of its own for a malformed request: the
  failure of the subscript \<open>body["messages"][-1]["content"]\<close> leaves \<open>inlet\<close> as it is. An
  empty \<open>messages\<close> list gives \<open>IndexError\<close>, a body without the key \<open>messages\<close> gives
  \<open>KeyError('messages')\<close>, and a last message that is a mapping without the key \<open>content\<close>
  gives \<open>KeyError('content')\<close>. In each case no scanner has been called and the body is as
  it was.
\<close>

theorem inlet_malformed_messages_raw_error:
  "(getitem body ''messages'' = Inr (PList []) \<longrightarrow>
      outcome (inlet self body) = Inl IndexError)
   \<and> (body = PDict kvs \<and> map_of kvs ''messages'' = None \<longrightarrow>
      outcome (inlet self body) = Inl (KeyError ''messages''))
   \<and> (getitem body ''messages'' = Inr (PList ms) \<and> ms \<noteq> [] \<and> last ms = PDict m
        \<and> map_of m ''content'' = None \<longrightarrow>
      outcome (inlet self body) = Inl (KeyError ''content''))
   \<and> ((\<exists>e. last_message_content body = Inl e) \<longrightarrow>
      scans (inlet self body) = [] \<and> body_after (inlet self body) = body)"
proof -
  have a: "getitem body ''messages'' = Inr (PList []) \<Longrightarrow>
      last_message_content body = Inl IndexError"
    by (simp add: last_message_content_def getitem_last_def)
  have b: "body = PDict kvs \<and> map_of kvs ''messages'' = None \<Longrightarrow>
      last_message_content body = Inl (KeyError ''messages'')"
    by (simp add: last_message_content_def getitem_PDict)
  have c: "getitem body ''messages'' = Inr (PList ms) \<and> ms \<noteq> [] \<and> last ms = PDict m
        \<and> map_of m ''content'' = None \<Longrightarrow>
      last_message_content body = Inl (KeyError ''content'')"
    by (simp add: last_message_content_def getitem_last_def getitem_PDict)
  show ?thesis
    using a b c by (auto simp: inlet_no_content raised_def)
qed

theorem inlet_malformed_messages_raw_error_witness:
  "outcome (inlet init (PDict [(''messages'', PList []), (''metadata'', PDict [(''files'', PNone)])]))
     = Inl IndexError
   \<and> outcome (inlet init (PDict [(''metadata'', PDict [(''files'', PNone)])]))
     = Inl (KeyError ''messages'')
   \<and> outcome (inlet init (PDict [(''messages'', PList [PDict [(''role'', PStr ''user'')]]),
        (''metadata'', PDict [(''files'', PNone)])]))
     = Inl (KeyError ''content'')
   \<and> body_after (inlet init (PDict [(''messages'', PList []), (''metadata'', PDict [(''files'', PNone)])]))
     = PDict [(''messages'', PList []), (''metadata'', PDict [(''files'', PNone)])]"
proof -
  let ?b1 = "PDict [(''messages'', PList []), (''metadata'', PDict [(''files'', PNone)])]"
  let ?b2 = "PDict [(''metadata'', PDict [(''files'', PNone)])]"
  let ?b3 = "PDict [(''messages'', PList [PDict [(''role'', PStr ''user'')]]),
        (''metadata'', PDict [(''files'', PNone)])]"
  have h1: "getitem ?b1 ''messages'' = Inr (PList [])"
    by (simp add: getitem_def)
  have h1': "\<exists>e. last_message_content ?b1 = Inl e"
    by (simp add: last_message_content_def getitem_def getitem_last_def)
  have h2: "?b2 = PDict [(''metadata'', PDict [(''files'', PNone)])]
      \<and> map_of [(''metadata'', PDict [(''files'', PNone)])] ''messages'' = None"
    by simp
  have h3: "getitem ?b3 ''messages'' = Inr (PList [PDict [(''role'', PStr ''user'')]])
      \<and> [PDict [(''role'', PStr ''user'')]] \<noteq> []
      \<and> last [PDict [(''role'', PStr ''user'')]] = PDict [(''role'', PStr ''user'')]
      \<and> map_of [(''role'', PStr ''user'')] ''content'' = None"
    by (simp add: getitem_def)
  from inlet_malformed_messages_raw_error[of ?b1 init] h1 h1'
  have r1: "outcome (inlet init ?b1) = Inl IndexError \<and> body_after (inlet init ?b1) = ?b1"
    by blast
  from inlet_malformed_messages_raw_error[of ?b2 init "[(''metadata'', PDict [(''files'', PNone)])]"] h2
  have r2: "outcome (inlet init ?b2) = Inl (KeyError ''messages'')"
    by blast
  from inlet_malformed_messages_raw_error[of ?b3 init _ "[PDict [(''role'', PStr ''user'')]]" "[(''role'', PStr ''user'')]"] h3
  have r3: "outcome (inlet init ?b3) = Inl (KeyError ''content'')"
    by blast
  show ?thesis using r1 r2 r3 by simp
qed

theorem inlet_missing_data_counterexample:
  "outcome (inlet (on_startup (fixed_scanner True 0) (fixed_scanner True 0) init)
      (PDict [(''messages'', PList []), (''metadata'', PDict [(''files'', PList [])])]))
     = Inl IndexError
   \<and> is_lookup_error IndexError"
  by (simp add: inlet_def last_message_content_def getitem_def getitem_last_def raised_def
      is_lookup_error_def)

end
